theory Spec2Isabelle
  imports Complex_Main
begin

section \<open>Characters and strings\<close>

text \<open>
  A Python \<open>str\<close> is modelled as a \<open>string\<close> whose characters stand for the code points
  below 256. The two character classes used by the program are \<open>str.strip\<close>'s (and the
  regular expression \<open>\s\<close>'s) white space and the regular expression \<open>\w\<close>'s word
  characters (alphanumeric code points and the underscore), both restricted to that range.
  Integers are unbounded. The interpreter's resource limits (the recursion depth, the digit
  limit of conversions between integers and strings) are not part of the model.
\<close>

definition is_space :: "char \<Rightarrow> bool" where
  "is_space c = (let n = (of_char c :: nat) in
     (9 \<le> n \<and> n \<le> 13) \<or> (28 \<le> n \<and> n \<le> 32) \<or> n = 133 \<or> n = 160)"

definition is_word :: "char \<Rightarrow> bool" where
  "is_word c = (let n = (of_char c :: nat) in
     (48 \<le> n \<and> n \<le> 57) \<or> (65 \<le> n \<and> n \<le> 90) \<or> n = 95 \<or> (97 \<le> n \<and> n \<le> 122) \<or>
     n = 170 \<or> n = 178 \<or> n = 179 \<or> n = 181 \<or> n = 185 \<or> n = 186 \<or>
     (188 \<le> n \<and> n \<le> 190) \<or> (192 \<le> n \<and> n \<le> 214) \<or> (216 \<le> n \<and> n \<le> 246) \<or>
     (248 \<le> n \<and> n \<le> 255))"

definition dquote :: char where
  "dquote = CHR 0x22"

definition backslash :: char where
  "backslash = CHR 0x5C"

text \<open>\<open>s.strip()\<close>\<close>

definition strip :: "string \<Rightarrow> string" where
  "strip s = rev (dropWhile is_space (rev (dropWhile is_space s)))"

text \<open>\<open>sep.join(xs)\<close>\<close>

fun join :: "string \<Rightarrow> string list \<Rightarrow> string" where
  "join sep [] = []"
| "join sep [x] = x"
| "join sep (x # y # ys) = x @ sep @ join sep (y # ys)"

text \<open>\<open>s.split(c)\<close> for a one-character separator\<close>

fun split_on :: "char \<Rightarrow> string \<Rightarrow> string list" where
  "split_on sep [] = [[]]"
| "split_on sep (c # cs) =
     (if c = sep then [] # split_on sep cs
      else (case split_on sep cs of p # ps \<Rightarrow> (c # p) # ps | [] \<Rightarrow> [[c]]))"

text \<open>
  A Python \<open>dict\<close> with string keys is an association list in insertion order;
  \<open>d[k] = v\<close> replaces the value of a key already present and appends a new key.
\<close>

fun dict_set :: "(string \<times> 'v) list \<Rightarrow> string \<Rightarrow> 'v \<Rightarrow> (string \<times> 'v) list" where
  "dict_set [] k v = [(k, v)]"
| "dict_set ((k', v') # d) k v = (if k' = k then (k, v) # d else (k', v') # dict_set d k v)"

section \<open>The parser (parser.py)\<close>

datatype AILangAST = AILangAST
  (action: string)
  (subject: string)
  (specifiers: "string list")
  (must: "string list")
  (maybe: "string list")
  (priority: "string list")
  (avoid: "string list")
  (chain_node: "AILangAST option")
  (parallel: "string list")
  (persona: "string option")
  (variables: "(string \<times> string) list")

datatype error =
    ParseError string
  | ContractError string
  | TypeError
  | ValueError
  | OverflowError

subsection \<open>\<open>_split_chain\<close>\<close>

record scan_state =
  parts :: "string list"
  current :: string
  depth :: int
  in_quotes :: bool

text \<open>One pass through the body of the \<open>while\<close> loop, at index \<open>i\<close>.\<close>

definition split_step :: "string \<Rightarrow> nat \<Rightarrow> scan_state \<Rightarrow> scan_state" where
  "split_step command i st =
     (let char = command ! i in
      if char = dquote \<and> (i = 0 \<or> command ! (i - 1) \<noteq> backslash)
      then st\<lparr>in_quotes := \<not> in_quotes st, current := current st @ [char]\<rparr>
      else if char \<in> set ''[{('' \<and> \<not> in_quotes st
      then st\<lparr>depth := depth st + 1, current := current st @ [char]\<rparr>
      else if char \<in> set '']})'' \<and> \<not> in_quotes st
      then st\<lparr>depth := depth st - 1, current := current st @ [char]\<rparr>
      else if char = CHR ''>'' \<and> depth st = 0 \<and> \<not> in_quotes st
      then st\<lparr>parts := parts st @ [strip (current st)], current := []\<rparr>
      else st\<lparr>current := current st @ [char]\<rparr>)"

function split_loop :: "string \<Rightarrow> nat \<Rightarrow> scan_state \<Rightarrow> scan_state" where
  "split_loop command i st =
     (if i < length command then split_loop command (i + 1) (split_step command i st) else st)"
  by pat_completeness auto
termination
  by (relation "measure (\<lambda>(command, i, st). length command - i)") auto

declare split_loop.simps [simp del]

definition split_chain :: "string \<Rightarrow> string list" where
  "split_chain command =
     (let st = split_loop command 0 \<lparr>parts = [], current = [], depth = 0, in_quotes = False\<rparr>
      in if strip (current st) \<noteq> [] then parts st @ [strip (current st)] else parts st)"

subsection \<open>\<open>_parse_single\<close>\<close>

text \<open>
  The regular expressions of \<open>_parse_single\<close>, written out as scanners. Every one of them
  is deterministic: a greedy run is always followed by a character outside the run's
  class, so backtracking never finds a match that the greedy attempt misses.
\<close>

text \<open>\<open>re.findall(p + r"(\w+)", s)\<close> for a one-character prefix \<open>p\<close>\<close>

function find_mods :: "char \<Rightarrow> string \<Rightarrow> string list" where
  "find_mods p [] = []"
| "find_mods p (c # cs) =
     (if c = p \<and> takeWhile is_word cs \<noteq> []
      then takeWhile is_word cs # find_mods p (dropWhile is_word cs)
      else find_mods p cs)"
  by pat_completeness auto
termination
  by (relation "measure (\<lambda>(p, s). length s)") (auto simp: length_dropWhile_le less_Suc_eq_le)

text \<open>\<open>re.findall(r"\[([^\]]+)\]", s)\<close>\<close>

function find_specifiers :: "string \<Rightarrow> string list" where
  "find_specifiers [] = []"
| "find_specifiers (c # cs) =
     (if c = CHR ''['' \<and> takeWhile (\<lambda>x. x \<noteq> CHR '']'') cs \<noteq> []
         \<and> dropWhile (\<lambda>x. x \<noteq> CHR '']'') cs \<noteq> []
      then takeWhile (\<lambda>x. x \<noteq> CHR '']'') cs
           # find_specifiers (tl (dropWhile (\<lambda>x. x \<noteq> CHR '']'') cs))
      else find_specifiers cs)"
  by pat_completeness auto
termination
proof (relation "measure length", goal_cases)
  case 1
  show ?case by simp
next
  case (2 c cs)
  have "length (tl (dropWhile (\<lambda>x. x \<noteq> CHR '']'') cs)) \<le> length cs"
    using length_dropWhile_le [of "\<lambda>x. x \<noteq> CHR '']''" cs] by simp
  then show ?case by simp
next
  case (3 c cs)
  show ?case by simp
qed

text \<open>\<open>re.match(r"^\{(\w+)\}", s)\<close>: the name and what follows the closing brace\<close>

definition match_var :: "string \<Rightarrow> (string \<times> string) option" where
  "match_var s =
     (case s of
        [] \<Rightarrow> None
      | c # cs \<Rightarrow>
          if c = CHR ''{'' \<and> takeWhile is_word cs \<noteq> []
             \<and> dropWhile is_word cs \<noteq> [] \<and> hd (dropWhile is_word cs) = CHR ''}''
          then Some (takeWhile is_word cs, tl (dropWhile is_word cs))
          else None)"

text \<open>\<open>re.findall(r"\{(\w+)\}", s)\<close>\<close>

function find_vars :: "string \<Rightarrow> string list" where
  "find_vars [] = []"
| "find_vars (c # cs) =
     (case match_var (c # cs) of
        Some (name, rest) \<Rightarrow> name # find_vars rest
      | None \<Rightarrow> find_vars cs)"
  by pat_completeness auto
termination
proof (relation "measure length", goal_cases)
  case 1
  show ?case by simp
next
  case (2 c cs)
  show ?case by simp
next
  case (3 c cs x2 name rest)
  then have "rest = tl (dropWhile is_word cs)"
    by (auto simp: match_var_def split: if_splits)
  moreover have "length (tl (dropWhile is_word cs)) \<le> length cs"
    using length_dropWhile_le [of is_word cs] by simp
  ultimately show ?case by simp
qed

text \<open>\<open>re.match(r'^"([^"]*)"', s)\<close>: the contents and what follows the closing quote\<close>

definition match_quoted :: "string \<Rightarrow> (string \<times> string) option" where
  "match_quoted s =
     (case s of
        [] \<Rightarrow> None
      | c # cs \<Rightarrow>
          if c = dquote \<and> dropWhile (\<lambda>x. x \<noteq> dquote) cs \<noteq> []
          then Some (takeWhile (\<lambda>x. x \<noteq> dquote) cs, tl (dropWhile (\<lambda>x. x \<noteq> dquote) cs))
          else None)"

text \<open>
  \<open>re.search(r"&\s*(\w+(?:\s*&\s*\w+)*)", s)\<close>, returning \<open>group(0)\<close>.
  \<open>par_more\<close> is the repetition \<open>(?:\s*&\s*\w+)*\<close>, \<open>par_at\<close> what follows one \<open>&\<close>.
\<close>

function par_more :: "string \<Rightarrow> string" where
  "par_more s =
     (case dropWhile is_space s of
        [] \<Rightarrow> []
      | c # r \<Rightarrow>
          if c = CHR ''&'' \<and> takeWhile is_word (dropWhile is_space r) \<noteq> []
          then takeWhile is_space s @ [c] @ takeWhile is_space r
               @ takeWhile is_word (dropWhile is_space r)
               @ par_more (dropWhile is_word (dropWhile is_space r))
          else [])"
  by pat_completeness auto
termination
proof (relation "measure length", goal_cases)
  case 1
  show ?case by simp
next
  case (2 s c r)
  have "length (dropWhile is_word (dropWhile is_space r)) \<le> length r"
    using length_dropWhile_le [of is_word "dropWhile is_space r"]
      length_dropWhile_le [of is_space r] by linarith
  moreover have "length (c # r) \<le> length s"
    using length_dropWhile_le [of is_space s] 2(1) by (metis)
  ultimately show ?case by simp
qed

definition par_at :: "string \<Rightarrow> string option" where
  "par_at r =
     (if takeWhile is_word (dropWhile is_space r) \<noteq> []
      then Some (takeWhile is_space r @ takeWhile is_word (dropWhile is_space r)
                 @ par_more (dropWhile is_word (dropWhile is_space r)))
      else None)"

fun search_parallel :: "string \<Rightarrow> string option" where
  "search_parallel [] = None"
| "search_parallel (c # cs) =
     (if c = CHR ''&''
      then (case par_at cs of Some m \<Rightarrow> Some (c # m) | None \<Rightarrow> search_parallel cs)
      else search_parallel cs)"

definition parse_single :: "string \<Rightarrow> error + AILangAST" where
  "parse_single command =
     (if takeWhile is_word command = []
      then Inl (ParseError (''Could not find action in: '' @ command))
      else
        let action = takeWhile is_word command;
            rest = strip (drop (length action) command);
            (subject, rest) =
              (case match_quoted rest of
                 Some (body, after) \<Rightarrow> (body, strip after)
               | None \<Rightarrow>
                   (case match_var rest of
                      Some (name, after) \<Rightarrow> (''{'' @ name @ ''}'', strip after)
                    | None \<Rightarrow> ([], rest)));
            specifiers = find_specifiers rest;
            must = find_mods (CHR ''!'') rest;
            maybe = find_mods (CHR ''~'') rest;
            priority = find_mods (CHR ''^'') rest;
            avoid = find_mods (CHR ''_'') rest;
            parallel =
              (case search_parallel rest of
                 Some m \<Rightarrow> filter (\<lambda>p. p \<noteq> []) (map strip (split_on (CHR ''&'') m))
               | None \<Rightarrow> []);
            variables = foldl (\<lambda>d var. dict_set d var []) [] (find_vars command)
        in Inr (AILangAST action subject specifiers must maybe priority avoid None
                  parallel None variables))"

subsection \<open>Facts about \<open>_split_chain\<close> needed to define \<open>parse\<close>\<close>

text \<open>The number of chain operators in a string: the measure of \<open>parse\<close>'s recursion.\<close>

definition gt_count :: "string \<Rightarrow> nat" where
  "gt_count s = length (filter (\<lambda>c. c = CHR ''>'') s)"

definition weight :: "scan_state \<Rightarrow> nat" where
  "weight st = sum_list (map (\<lambda>p. Suc (gt_count p)) (parts st)) + gt_count (current st)"

lemma split_loop_foldl:
  "split_loop command i st = foldl (\<lambda>s j. split_step command j s) st [i..<length command]"
proof (induction command i st rule: split_loop.induct)
  case (1 command i st)
  show ?case
  proof (cases "i < length command")
    case True
    then have "[i..<length command] = i # [i + 1..<length command]"
      by (simp add: upt_conv_Cons)
    moreover have "split_loop command i st = split_loop command (i + 1) (split_step command i st)"
      using True by (subst split_loop.simps) simp
    ultimately show ?thesis using 1 [OF True] by simp
  next
    case False
    then show ?thesis by (subst split_loop.simps) simp
  qed
qed

lemma filter_dropWhile_other:
  "(\<And>x. Q x \<Longrightarrow> \<not> P x) \<Longrightarrow> filter P (dropWhile Q xs) = filter P xs"
  by (induction xs) auto

lemma is_space_gt [simp]: "\<not> is_space (CHR ''>'')"
  by (simp add: is_space_def)

lemma filter_strip:
  assumes "\<And>x. is_space x \<Longrightarrow> \<not> P x"
  shows "filter P (strip s) = filter P s"
proof -
  have "filter P (strip s) = rev (filter P (dropWhile is_space (rev (dropWhile is_space s))))"
    by (simp add: strip_def rev_filter)
  also have "\<dots> = rev (filter P (rev (dropWhile is_space s)))"
    using assms by (simp add: filter_dropWhile_other)
  also have "\<dots> = filter P (dropWhile is_space s)"
    by (simp add: rev_filter)
  also have "\<dots> = filter P s"
    using assms by (simp add: filter_dropWhile_other)
  finally show ?thesis .
qed

lemma gt_count_strip [simp]: "gt_count (strip s) = gt_count s"
  unfolding gt_count_def by (rule arg_cong [OF filter_strip]) auto

lemma gt_count_Nil [simp]: "gt_count [] = 0"
  by (simp add: gt_count_def)

lemma gt_count_snoc: "gt_count (s @ [c]) = gt_count s + (if c = CHR ''>'' then 1 else 0)"
  by (simp add: gt_count_def)

lemma weight_split_step:
  "weight (split_step command i st) = weight st + (if command ! i = CHR ''>'' then 1 else 0)"
  by (simp add: split_step_def weight_def Let_def gt_count_snoc)

lemma weight_run:
  "n \<le> length command \<Longrightarrow>
   weight (foldl (\<lambda>s j. split_step command j s) st [0..<n]) = weight st + gt_count (take n command)"
proof (induction n)
  case 0
  then show ?case by simp
next
  case (Suc n)
  then have "take (Suc n) command = take n command @ [command ! n]"
    by (simp add: take_Suc_conv_app_nth)
  with Suc show ?case
    by (simp add: weight_split_step gt_count_snoc)
qed

lemma split_chain_weight:
  "sum_list (map (\<lambda>p. Suc (gt_count p)) (split_chain command)) \<le> Suc (gt_count command)"
proof -
  define st where "st = foldl (\<lambda>s j. split_step command j s)
               \<lparr>parts = [], current = [], depth = 0, in_quotes = False\<rparr> [0..<length command]"
  have "weight st = gt_count command"
    unfolding st_def using weight_run [of "length command" command] by (simp add: weight_def)
  then have w: "sum_list (map (\<lambda>p. Suc (gt_count p)) (parts st)) + gt_count (current st) = gt_count command"
    by (simp add: weight_def)
  have sc: "split_chain command =
      (if strip (current st) \<noteq> [] then parts st @ [strip (current st)] else parts st)"
    unfolding st_def by (simp add: split_chain_def split_loop_foldl Let_def)
  show ?thesis
  proof (cases "strip (current st) \<noteq> []")
    case True
    then show ?thesis using w by (simp add: sc)
  next
    case False
    then show ?thesis using w by (simp add: sc)
  qed
qed

lemma gt_count_append [simp]: "gt_count (a @ b) = gt_count a + gt_count b"
  by (simp add: gt_count_def)

lemma gt_count_Cons [simp]: "gt_count (c # s) = (if c = CHR ''>'' then 1 else 0) + gt_count s"
  by (simp add: gt_count_def)

lemma gt_count_join:
  "xs \<noteq> [] \<Longrightarrow> Suc (gt_count (join '' > '' xs)) = sum_list (map (\<lambda>p. Suc (gt_count p)) xs)"
proof (induction "'' > ''" xs rule: join.induct)
  case 1
  then show ?case by simp
next
  case (2 x)
  then show ?case by simp
next
  case (3 x y ys)
  then show ?case by simp
qed

lemma rejoin_smaller:
  assumes "1 < length (split_chain command)"
  shows "gt_count (join '' > '' (tl (split_chain command))) < gt_count command"
proof -
  obtain p ps where eq: "split_chain command = p # ps" and ne: "ps \<noteq> []"
    using assms by (cases "split_chain command") auto
  have "Suc (gt_count p) + sum_list (map (\<lambda>p. Suc (gt_count p)) ps) \<le> Suc (gt_count command)"
    using split_chain_weight [of command] by (simp add: eq)
  moreover have "Suc (gt_count (join '' > '' ps)) = sum_list (map (\<lambda>p. Suc (gt_count p)) ps)"
    using ne by (rule gt_count_join)
  ultimately show ?thesis by (simp add: eq)
qed

subsection \<open>\<open>parse\<close>\<close>

text \<open>
  \<open>re.match(r'@as\s+"([^"]+)"\s*\{(.+)\}', s, re.DOTALL)\<close>: \<open>group(1)\<close> and \<open>group(2)\<close>.
  The greedy \<open>(.+)\<close> runs to the last closing brace of the string and must not be empty.
\<close>

definition before_last_brace :: "string \<Rightarrow> string" where
  "before_last_brace s = rev (tl (dropWhile (\<lambda>x. x \<noteq> CHR ''}'') (rev s)))"

definition persona_match :: "string \<Rightarrow> (string \<times> string) option" where
  "persona_match s =
     (let r1 = drop 3 s;
          r2 = dropWhile is_space r1;
          name = takeWhile (\<lambda>x. x \<noteq> dquote) (tl r2);
          r3 = dropWhile (\<lambda>x. x \<noteq> dquote) (tl r2);
          r4 = dropWhile is_space (tl r3);
          r5 = tl r4
      in if take 3 s = ''@as'' \<and> takeWhile is_space r1 \<noteq> []
            \<and> r2 \<noteq> [] \<and> hd r2 = dquote
            \<and> name \<noteq> [] \<and> r3 \<noteq> []
            \<and> r4 \<noteq> [] \<and> hd r4 = CHR ''{''
            \<and> CHR ''}'' \<in> set r5 \<and> before_last_brace r5 \<noteq> []
         then Some (name, before_last_brace r5)
         else None)"

text \<open>The first lines of \<open>parse\<close>: the persona, if any, and the command that is then split.\<close>

definition unwrap_persona :: "string \<Rightarrow> string option \<times> string" where
  "unwrap_persona command =
     (case persona_match (strip command) of
        Some (name, body) \<Rightarrow> (Some name, strip body)
      | None \<Rightarrow> (None, strip command))"

definition set_persona :: "AILangAST \<Rightarrow> string option \<Rightarrow> AILangAST" where
  "set_persona a p =
     AILangAST (action a) (subject a) (specifiers a) (must a) (maybe a) (priority a) (avoid a)
       (chain_node a) (parallel a) p (variables a)"

definition set_chain :: "AILangAST \<Rightarrow> AILangAST option \<Rightarrow> AILangAST" where
  "set_chain a c =
     AILangAST (action a) (subject a) (specifiers a) (must a) (maybe a) (priority a) (avoid a)
       c (parallel a) (persona a) (variables a)"

lemma gt_count_filter_le: "gt_count (filter P s) \<le> gt_count s"
  by (induction s) auto

lemma gt_count_dropWhile_le: "gt_count (dropWhile P s) \<le> gt_count s"
  by (induction s) auto

lemma gt_count_tl_le: "gt_count (tl s) \<le> gt_count s"
  by (cases s) auto

lemma gt_count_drop_le: "gt_count (drop n s) \<le> gt_count s"
  by (induction s arbitrary: n) (auto simp: drop_Cons split: nat.splits intro: le_SucI)

lemma gt_count_rev [simp]: "gt_count (rev s) = gt_count s"
  by (simp add: gt_count_def flip: rev_filter)

lemma gt_count_before_last_brace: "gt_count (before_last_brace s) \<le> gt_count s"
proof -
  have "gt_count (before_last_brace s) \<le> gt_count (dropWhile (\<lambda>x. x \<noteq> CHR ''}'') (rev s))"
    by (simp add: before_last_brace_def gt_count_tl_le)
  also have "\<dots> \<le> gt_count (rev s)"
    by (rule gt_count_dropWhile_le)
  finally show ?thesis by simp
qed

lemma gt_count_persona_match:
  assumes "persona_match s = Some (name, body)"
  shows "gt_count body \<le> gt_count s"
proof -
  define r1 where "r1 = drop 3 s"
  define r2 where "r2 = dropWhile is_space r1"
  define r3 where "r3 = dropWhile (\<lambda>x. x \<noteq> dquote) (tl r2)"
  define r4 where "r4 = dropWhile is_space (tl r3)"
  have "body = before_last_brace (tl r4)"
    using assms unfolding persona_match_def Let_def r1_def r2_def r3_def r4_def
    by (simp split: if_splits)
  then have "gt_count body \<le> gt_count (tl r4)"
    by (simp add: gt_count_before_last_brace)
  also have "\<dots> \<le> gt_count r4" by (rule gt_count_tl_le)
  also have "\<dots> \<le> gt_count (tl r3)" unfolding r4_def by (rule gt_count_dropWhile_le)
  also have "\<dots> \<le> gt_count r3" by (rule gt_count_tl_le)
  also have "\<dots> \<le> gt_count (tl r2)" unfolding r3_def by (rule gt_count_dropWhile_le)
  also have "\<dots> \<le> gt_count r2" by (rule gt_count_tl_le)
  also have "\<dots> \<le> gt_count r1" unfolding r2_def by (rule gt_count_dropWhile_le)
  also have "\<dots> \<le> gt_count s" unfolding r1_def by (rule gt_count_drop_le)
  finally show ?thesis .
qed

lemma gt_count_unwrap_persona: "gt_count (snd (unwrap_persona command)) \<le> gt_count command"
proof (cases "persona_match (strip command)")
  case None
  then show ?thesis by (simp add: unwrap_persona_def)
next
  case (Some nb)
  obtain name body where nb: "nb = (name, body)" by (cases nb)
  have "gt_count body \<le> gt_count (strip command)"
    using Some nb gt_count_persona_match by blast
  with Some nb show ?thesis by (simp add: unwrap_persona_def)
qed

function parse :: "string \<Rightarrow> error + AILangAST" where
  "parse command =
     (let pc = unwrap_persona command;
          chain_parts = split_chain (snd pc)
      in if length chain_parts > 1
         then (case parse_single (hd chain_parts) of
                 Inl e \<Rightarrow> Inl e
               | Inr ast \<Rightarrow>
                   (case parse (join '' > '' (tl chain_parts)) of
                      Inl e \<Rightarrow> Inl e
                    | Inr rest \<Rightarrow> Inr (set_chain (set_persona ast (fst pc)) (Some rest))))
         else (case parse_single (snd pc) of
                 Inl e \<Rightarrow> Inl e
               | Inr ast \<Rightarrow> Inr (set_persona ast (fst pc))))"
  by pat_completeness auto
termination
proof (relation "measure gt_count", goal_cases)
  case 1
  show ?case by simp
next
  case (2 command pc chain_parts ast)
  have "gt_count (join '' > '' (tl chain_parts)) < gt_count (snd pc)"
    using 2 rejoin_smaller [of "snd pc"] by simp
  also have "\<dots> \<le> gt_count command"
    using 2 gt_count_unwrap_persona [of command] by simp
  finally show ?case by simp
qed

declare parse.simps [simp del]

fun chain_nodes :: "AILangAST \<Rightarrow> AILangAST list" where
  "chain_nodes (AILangAST ac su sp mu ma pr av None pa pe va) = []"
| "chain_nodes (AILangAST ac su sp mu ma pr av (Some c) pa pe va) = c # chain_nodes c"

section \<open>The output contracts (contracts.py)\<close>

subsection \<open>Values\<close>

text \<open>
  The values a decoded JSON document is made of. A finite float is represented by the
  real number it denotes; the three non-finite floats are values of their own.
\<close>

datatype pyfloat = Finite real | PosInf | NegInf | NaN

datatype "value" =
    VNone
  | VBool bool
  | VInt int
  | VFloat pyfloat
  | VStr string
  | VList "value list"
  | VDict "(string \<times> value) list"

text \<open>Truthiness of an optional integer bound: \<open>None\<close> and \<open>0\<close> are false.\<close>

fun truthy :: "int option \<Rightarrow> bool" where
  "truthy None = False"
| "truthy (Some n) = (n \<noteq> 0)"

text \<open>
  \<open>str(value)\<close>. On a string it is the string; on every other value of the universe above
  it coincides with \<open>repr(value)\<close>, which the model takes as a parameter.
\<close>

definition py_str :: "(value \<Rightarrow> string) \<Rightarrow> value \<Rightarrow> string" where
  "py_str repr v = (case v of VStr s \<Rightarrow> s | _ \<Rightarrow> repr v)"

text \<open>\<open>s[:k]\<close>: a negative bound counts from the end.\<close>

definition slice_to :: "string \<Rightarrow> int \<Rightarrow> string" where
  "slice_to s k = (if 0 \<le> k then take (nat k) s else take (nat (int (length s) + k)) s)"

text \<open>Decimal digits of an integer, for the f-strings of \<open>to_prompt\<close>.\<close>

fun digits_of :: "nat \<Rightarrow> string" where
  "digits_of n =
     (if n < 10 then [char_of (48 + n)] else digits_of (n div 10) @ [char_of (48 + n mod 10)])"

declare digits_of.simps [simp del]

definition str_int :: "int \<Rightarrow> string" where
  "str_int n = (if n < 0 then CHR ''-'' # digits_of (nat (- n)) else digits_of (nat n))"

subsection \<open>Numeric coercion\<close>

definition is_digit :: "char \<Rightarrow> bool" where
  "is_digit c = (let n = (of_char c :: nat) in 48 \<le> n \<and> n \<le> 57)"

text \<open>\<open>digit (["_"] digit)*\<close>: digits, single underscores allowed between two digits.\<close>

fun digitpart :: "string \<Rightarrow> bool" where
  "digitpart [] = False"
| "digitpart [c] = is_digit c"
| "digitpart (c # d # r) =
     (is_digit c \<and> (if d = CHR ''_'' then digitpart r else digitpart (d # r)))"

definition digits_value :: "string \<Rightarrow> int" where
  "digits_value s = foldl (\<lambda>a c. 10 * a + (int (of_char c) - 48)) 0 (filter is_digit s)"

definition drop_sign :: "string \<Rightarrow> string" where
  "drop_sign s = (case s of c # r \<Rightarrow> if c = CHR ''+'' \<or> c = CHR ''-'' then r else s | [] \<Rightarrow> [])"

text \<open>
  The blanks \<open>int(s)\<close> and \<open>float(s)\<close> skip around a number: the six of ASCII and the two
  blank code points above it. The separators 28 to 31, which \<open>strip()\<close> removes, are not
  among them.
\<close>

definition is_num_space :: "char \<Rightarrow> bool" where
  "is_num_space c = (let n = (of_char c :: nat) in
     (9 \<le> n \<and> n \<le> 13) \<or> n = 32 \<or> n = 133 \<or> n = 160)"

definition num_strip :: "string \<Rightarrow> string" where
  "num_strip s = rev (dropWhile is_num_space (rev (dropWhile is_num_space s)))"

text \<open>\<open>int(s)\<close> for a string: \<open>None\<close> stands for \<open>ValueError\<close>.\<close>

definition int_of_str :: "string \<Rightarrow> int option" where
  "int_of_str s =
     (let t = num_strip s; body = drop_sign t
      in if digitpart body
         then Some (if t \<noteq> [] \<and> hd t = CHR ''-'' then - digits_value body else digits_value body)
         else None)"

text \<open>\<open>int(value)\<close>\<close>

fun int_coerce :: "value \<Rightarrow> error + int" where
  "int_coerce VNone = Inl TypeError"
| "int_coerce (VBool b) = Inr (if b then 1 else 0)"
| "int_coerce (VInt n) = Inr n"
| "int_coerce (VFloat (Finite r)) = Inr (if 0 \<le> r then \<lfloor>r\<rfloor> else \<lceil>r\<rceil>)"
| "int_coerce (VFloat NaN) = Inl ValueError"
| "int_coerce (VFloat PosInf) = Inl OverflowError"
| "int_coerce (VFloat NegInf) = Inl OverflowError"
| "int_coerce (VStr s) = (case int_of_str s of Some n \<Rightarrow> Inr n | None \<Rightarrow> Inl ValueError)"
| "int_coerce (VList xs) = Inl TypeError"
| "int_coerce (VDict d) = Inl TypeError"

text \<open>
  The strings \<open>float(s)\<close> accepts, after trimming: an optional sign, then \<open>inf\<close>,
  \<open>infinity\<close> or \<open>nan\<close> in any case, or a decimal number with an optional exponent.
\<close>

definition ascii_lower :: "char \<Rightarrow> char" where
  "ascii_lower c = (let n = (of_char c :: nat) in if 65 \<le> n \<and> n \<le> 90 then char_of (n + 32) else c)"

text \<open>\<open>[digitpart] "." digitpart | digitpart ["."]\<close>\<close>

definition float_number :: "string \<Rightarrow> bool" where
  "float_number s =
     (let a = takeWhile (\<lambda>c. c \<noteq> CHR ''.'') s; b = dropWhile (\<lambda>c. c \<noteq> CHR ''.'') s
      in if b = [] then digitpart a
         else (a = [] \<and> digitpart (tl b)) \<or> (digitpart a \<and> (tl b = [] \<or> digitpart (tl b))))"

definition is_exp_char :: "char \<Rightarrow> bool" where
  "is_exp_char c = (c = CHR ''e'' \<or> c = CHR ''E'')"

definition float_literal :: "string \<Rightarrow> bool" where
  "float_literal s =
     (let body = drop_sign (num_strip s);
          mant = takeWhile (\<lambda>c. \<not> is_exp_char c) body;
          ex = dropWhile (\<lambda>c. \<not> is_exp_char c) body
      in map ascii_lower body \<in> {''inf'', ''infinity'', ''nan''}
         \<or> (float_number mant \<and> (ex = [] \<or> digitpart (drop_sign (tl ex)))))"

text \<open>
  Whether \<open>float(value)\<close> raises, and what. An integer converts unless it rounds to a
  magnitude beyond the largest double.
\<close>

fun float_raises :: "value \<Rightarrow> error option" where
  "float_raises VNone = Some TypeError"
| "float_raises (VBool b) = None"
| "float_raises (VInt n) = (if 2 ^ 1024 - 2 ^ 970 \<le> \<bar>n\<bar> then Some OverflowError else None)"
| "float_raises (VFloat f) = None"
| "float_raises (VStr s) = (if float_literal s then None else Some ValueError)"
| "float_raises (VList xs) = Some TypeError"
| "float_raises (VDict d) = Some TypeError"

subsection \<open>Type constraints\<close>

text \<open>
  A \<open>TypeConstraint\<close> object, as \<open>parse_response\<close> sees it: its class, for the
  \<open>isinstance\<close> test, and its three methods. A method either returns or raises.
  The classes \<open>Str\<close>, \<open>Int\<close>, \<open>List_\<close> and \<open>Optional_\<close> are modelled as such objects;
  of \<open>Float\<close>, the prompt and \<open>validate\<close> are modelled.
\<close>

datatype tc_class = CStr | CInt | CFloat | CBool | CCode | CList | COptional | CEnum

record type_constraint =
  tc_class :: tc_class
  tc_to_prompt :: string
  tc_validate :: "value \<Rightarrow> error + bool"
  tc_parse :: "value \<Rightarrow> error + value"

subsubsection \<open>\<open>Str\<close>\<close>

record Str =
  str_max :: "int option"
  str_min :: "int option"
  str_pattern :: "string option"

definition Str_to_prompt :: "Str \<Rightarrow> string" where
  "Str_to_prompt c =
     join '' '' ([''text'']
       @ (if truthy (str_max c) then [''(maximum '' @ str_int (the (str_max c)) @ '' characters)''] else [])
       @ (if truthy (str_min c) then [''(minimum '' @ str_int (the (str_min c)) @ '' characters)''] else []))"

text \<open>
  \<open>re_match pattern s\<close> stands for the truth value of \<open>re.match(pattern, s)\<close>, or the
  error the regular expression library raises on a malformed pattern.
\<close>

definition Str_validate :: "(string \<Rightarrow> string \<Rightarrow> error + bool) \<Rightarrow> Str \<Rightarrow> value \<Rightarrow> error + bool" where
  "Str_validate re_match c v =
     (case v of
        VStr s \<Rightarrow>
          if truthy (str_max c) \<and> int (length s) > the (str_max c) then Inr False
          else if truthy (str_min c) \<and> int (length s) < the (str_min c) then Inr False
          else (case str_pattern c of
                  None \<Rightarrow> Inr True
                | Some p \<Rightarrow>
                    if p = [] then Inr True
                    else (case re_match p s of
                            Inl e \<Rightarrow> Inl e
                          | Inr m \<Rightarrow> Inr m))
      | _ \<Rightarrow> Inr False)"

definition Str_parse :: "(value \<Rightarrow> string) \<Rightarrow> Str \<Rightarrow> value \<Rightarrow> string" where
  "Str_parse repr c v =
     (let s = py_str repr v
      in if truthy (str_max c) \<and> int (length s) > the (str_max c)
         then slice_to s (the (str_max c) - 3) @ ''...''
         else s)"

definition Str_object ::
  "(string \<Rightarrow> string \<Rightarrow> error + bool) \<Rightarrow> (value \<Rightarrow> string) \<Rightarrow> Str \<Rightarrow> type_constraint" where
  "Str_object re_match repr c =
     \<lparr>tc_class = CStr, tc_to_prompt = Str_to_prompt c,
      tc_validate = Str_validate re_match c,
      tc_parse = (\<lambda>v. Inr (VStr (Str_parse repr c v)))\<rparr>"

subsubsection \<open>\<open>Int\<close>\<close>

record Int_constraint =
  int_min :: "int option"
  int_max :: "int option"

definition Int_to_prompt :: "Int_constraint \<Rightarrow> string" where
  "Int_to_prompt c =
     join '' '' ([''integer number'']
       @ (case (int_min c, int_max c) of
            (Some lo, Some hi) \<Rightarrow> [''(between '' @ str_int lo @ '' and '' @ str_int hi @ '')'']
          | (Some lo, None) \<Rightarrow> [''(minimum '' @ str_int lo @ '')'']
          | (None, Some hi) \<Rightarrow> [''(maximum '' @ str_int hi @ '')'']
          | (None, None) \<Rightarrow> []))"

definition Int_validate :: "Int_constraint \<Rightarrow> value \<Rightarrow> error + bool" where
  "Int_validate c value =
     (case int_coerce value of
        Inr v \<Rightarrow>
          if int_min c \<noteq> None \<and> v < the (int_min c) then Inr False
          else if int_max c \<noteq> None \<and> v > the (int_max c) then Inr False
          else Inr True
      | Inl e \<Rightarrow> if e = ValueError \<or> e = TypeError then Inr False else Inl e)"

definition Int_parse :: "value \<Rightarrow> error + value" where
  "Int_parse value = (case int_coerce value of Inr v \<Rightarrow> Inr (VInt v) | Inl e \<Rightarrow> Inl e)"

definition Int_object :: "Int_constraint \<Rightarrow> type_constraint" where
  "Int_object c =
     \<lparr>tc_class = CInt, tc_to_prompt = Int_to_prompt c,
      tc_validate = Int_validate c, tc_parse = Int_parse\<rparr>"

subsubsection \<open>\<open>Float\<close>\<close>

record Float_constraint =
  float_min :: "pyfloat option"
  float_max :: "pyfloat option"
  float_precision :: "int option"

definition Float_to_prompt :: "Float_constraint \<Rightarrow> string" where
  "Float_to_prompt c =
     join '' '' ([''decimal number'']
       @ (if truthy (float_precision c)
          then [''(to '' @ str_int (the (float_precision c)) @ '' decimal places)''] else []))"

definition Float_validate :: "Float_constraint \<Rightarrow> value \<Rightarrow> error + bool" where
  "Float_validate c value =
     (case float_raises value of
        None \<Rightarrow> Inr True
      | Some e \<Rightarrow> if e = ValueError \<or> e = TypeError then Inr False else Inl e)"

subsubsection \<open>\<open>List_\<close>\<close>

record List_constraint =
  item_type :: "type_constraint option"
  min_items :: "int option"
  max_items :: "int option"
  exact_items :: "int option"

definition List_to_prompt :: "List_constraint \<Rightarrow> string" where
  "List_to_prompt c =
     join '' '' ([''list'']
       @ (if truthy (exact_items c) then [''of exactly '' @ str_int (the (exact_items c)) @ '' items'']
          else if truthy (min_items c) \<and> truthy (max_items c)
          then [''of '' @ str_int (the (min_items c)) @ ''-'' @ str_int (the (max_items c)) @ '' items'']
          else if truthy (min_items c) then [''of at least '' @ str_int (the (min_items c)) @ '' items'']
          else if truthy (max_items c) then [''of at most '' @ str_int (the (max_items c)) @ '' items'']
          else [])
       @ (case item_type c of
            Some t \<Rightarrow> [''where each item is '' @ tc_to_prompt t]
          | None \<Rightarrow> []))"

text \<open>\<open>all(item_type.validate(item) for item in value)\<close>: stops at the first false item.\<close>

fun all_validate :: "type_constraint \<Rightarrow> value list \<Rightarrow> error + bool" where
  "all_validate t [] = Inr True"
| "all_validate t (item # items) =
     (case tc_validate t item of
        Inl e \<Rightarrow> Inl e
      | Inr ok \<Rightarrow> if ok then all_validate t items else Inr False)"

definition List_validate :: "List_constraint \<Rightarrow> value \<Rightarrow> error + bool" where
  "List_validate c v =
     (case v of
        VList xs \<Rightarrow>
          if truthy (exact_items c) \<and> int (length xs) \<noteq> the (exact_items c) then Inr False
          else if truthy (min_items c) \<and> int (length xs) < the (min_items c) then Inr False
          else if truthy (max_items c) \<and> int (length xs) > the (max_items c) then Inr False
          else (case item_type c of
                  Some t \<Rightarrow> all_validate t xs
                | None \<Rightarrow> Inr True)
      | _ \<Rightarrow> Inr False)"

text \<open>What a \<open>for\<close> loop over a value visits, or \<open>TypeError\<close>.\<close>

fun iterate :: "value \<Rightarrow> error + value list" where
  "iterate (VList xs) = Inr xs"
| "iterate (VDict d) = Inr (map (\<lambda>kv. VStr (fst kv)) d)"
| "iterate (VStr s) = Inr (map (\<lambda>c. VStr [c]) s)"
| "iterate v = Inl TypeError"

fun parse_items :: "type_constraint \<Rightarrow> value list \<Rightarrow> error + value list" where
  "parse_items t [] = Inr []"
| "parse_items t (item # items) =
     (case tc_parse t item of
        Inl e \<Rightarrow> Inl e
      | Inr x \<Rightarrow> (case parse_items t items of Inl e \<Rightarrow> Inl e | Inr xs \<Rightarrow> Inr (x # xs)))"

text \<open>\<open>re.split(r"[\n,]", s)\<close>\<close>

fun split_lines_commas :: "string \<Rightarrow> string list" where
  "split_lines_commas [] = [[]]"
| "split_lines_commas (c # cs) =
     (if c = CHR 0x0A \<or> c = CHR '','' then [] # split_lines_commas cs
      else (case split_lines_commas cs of p # ps \<Rightarrow> (c # p) # ps | [] \<Rightarrow> [[c]]))"

text \<open>
  \<open>json_loads s\<close> stands for \<open>json.loads(s)\<close>: the decoded value, or the message of the
  \<open>JSONDecodeError\<close>.
\<close>

definition List_parse :: "(string \<Rightarrow> string + value) \<Rightarrow> List_constraint \<Rightarrow> value \<Rightarrow> error + value" where
  "List_parse json_loads c v =
     (let value =
            (case v of
               VStr s \<Rightarrow>
                 (case json_loads s of
                    Inr decoded \<Rightarrow> decoded
                  | Inl msg \<Rightarrow>
                      VList (map VStr (filter (\<lambda>p. p \<noteq> []) (map strip (split_lines_commas s)))))
             | _ \<Rightarrow> v)
      in case iterate value of
           Inl e \<Rightarrow> Inl e
         | Inr items \<Rightarrow>
             (case item_type c of
                Some t \<Rightarrow> (case parse_items t items of Inl e \<Rightarrow> Inl e | Inr xs \<Rightarrow> Inr (VList xs))
              | None \<Rightarrow> Inr (VList items)))"

definition List_object :: "(string \<Rightarrow> string + value) \<Rightarrow> List_constraint \<Rightarrow> type_constraint" where
  "List_object json_loads c =
     \<lparr>tc_class = CList, tc_to_prompt = List_to_prompt c,
      tc_validate = List_validate c, tc_parse = List_parse json_loads c\<rparr>"

subsubsection \<open>\<open>Optional_\<close>\<close>

definition Optional_validate :: "type_constraint \<Rightarrow> value \<Rightarrow> error + bool" where
  "Optional_validate inner_type value =
     (if value = VNone then Inr True else tc_validate inner_type value)"

definition Optional_parse :: "type_constraint \<Rightarrow> value \<Rightarrow> error + value" where
  "Optional_parse inner_type value =
     (if value = VNone \<or> value = VStr ''null'' \<or> value = VStr [] then Inr VNone
      else tc_parse inner_type value)"

definition Optional_object :: "type_constraint \<Rightarrow> type_constraint" where
  "Optional_object inner_type =
     \<lparr>tc_class = COptional,
      tc_to_prompt = tc_to_prompt inner_type @ '' (or null if not applicable)'',
      tc_validate = Optional_validate inner_type,
      tc_parse = Optional_parse inner_type\<rparr>"

subsection \<open>\<open>OutputContract.parse_response\<close>\<close>

text \<open>\<open>re.sub(r"^```\w*\n?", "", s)\<close> on a string that starts with the fence\<close>

definition strip_open_fence :: "string \<Rightarrow> string" where
  "strip_open_fence s =
     (let r = dropWhile is_word (drop 3 s)
      in case r of c # r' \<Rightarrow> if c = CHR 0x0A then r' else r | [] \<Rightarrow> [])"

text \<open>
  \<open>re.sub(r"\n?```$", "", s)\<close>: \<open>$\<close> matches at the end of the string and before a newline
  that ends it, so the pattern matches where the rest of the string is the fence, with
  or without a newline on either side.
\<close>

fun strip_close_fence :: "string \<Rightarrow> string" where
  "strip_close_fence [] = []"
| "strip_close_fence (c # cs) =
     (if c # cs = [CHR 0x0A] @ ''```'' \<or> c # cs = ''```'' then []
      else if c # cs = [CHR 0x0A] @ ''```'' @ [CHR 0x0A] \<or> c # cs = ''```'' @ [CHR 0x0A] then [CHR 0x0A]
      else c # strip_close_fence cs)"

definition type_name :: "value \<Rightarrow> string" where
  "type_name v =
     (case v of
        VNone \<Rightarrow> ''NoneType'' | VBool b \<Rightarrow> ''bool'' | VInt n \<Rightarrow> ''int'' | VFloat f \<Rightarrow> ''float''
      | VStr s \<Rightarrow> ''str'' | VList xs \<Rightarrow> ''list'' | VDict d \<Rightarrow> ''dict'')"

text \<open>
  The loop over the schema. \<open>data\<close> is the decoded object, \<open>result\<close> the dictionary built
  so far; \<open>repr\<close> stands for Python's \<open>repr\<close>, used in the message of a failed validation.
\<close>

fun parse_fields ::
  "(value \<Rightarrow> string) \<Rightarrow> (string \<times> type_constraint) list \<Rightarrow> (string \<times> value) list
     \<Rightarrow> (string \<times> value) list \<Rightarrow> error + (string \<times> value) list" where
  "parse_fields repr [] data result = Inr result"
| "parse_fields repr ((name, type_constraint) # schema) data result =
     (case map_of data name of
        None \<Rightarrow>
          if tc_class type_constraint = COptional
          then parse_fields repr schema data (dict_set result name VNone)
          else Inl (ContractError (''Missing required field: '' @ name))
      | Some value \<Rightarrow>
          (case tc_validate type_constraint value of
             Inl e \<Rightarrow> Inl e
           | Inr ok \<Rightarrow>
               if \<not> ok
               then Inl (ContractError (''Field '' @ [CHR 0x27] @ name @ [CHR 0x27]
                      @ '' failed validation: expected '' @ tc_to_prompt type_constraint
                      @ '', got '' @ repr value))
               else (case tc_parse type_constraint value of
                       Inl e \<Rightarrow> Inl e
                     | Inr parsed \<Rightarrow> parse_fields repr schema data (dict_set result name parsed))))"

text \<open>The text handed to the JSON decoder: the response trimmed and without its fence.\<close>

definition extract_json :: "string \<Rightarrow> string" where
  "extract_json response =
     (let response1 = strip response
      in if take 3 response1 = ''```''
         then strip_close_fence (strip_open_fence response1) else response1)"

definition parse_response ::
  "(string \<Rightarrow> string + value) \<Rightarrow> (value \<Rightarrow> string) \<Rightarrow> (string \<times> type_constraint) list
     \<Rightarrow> string \<Rightarrow> error + (string \<times> value) list" where
  "parse_response json_loads repr schema response =
     (case json_loads (extract_json response) of
        Inl msg \<Rightarrow> Inl (ContractError (''Response is not valid JSON: '' @ msg))
      | Inr data \<Rightarrow>
          (case data of
             VDict d \<Rightarrow> parse_fields repr schema d []
           | _ \<Rightarrow> Inl (ContractError (''Response must be a JSON object, got '' @ type_name data))))"

section \<open>Properties of the parser\<close>

subsection \<open>Where a persona can come from\<close>

lemma parse_single_fresh:
  assumes "parse_single seg = Inr ast"
  shows "persona ast = None \<and> chain_node ast = None"
  using assms by (auto simp: parse_single_def Let_def split: if_splits prod.splits)

lemma chain_nodes_set_persona [simp]: "chain_nodes (set_persona a p) = chain_nodes a"
  by (cases a) (rename_tac ac su sp mu ma pr av ch pa pe va, case_tac ch, simp_all add: set_persona_def)

lemma chain_nodes_set_chain [simp]:
  "chain_nodes (set_chain a (Some c)) = c # chain_nodes c"
  by (simp add: set_chain_def)

lemma chain_nodes_no_chain: "chain_node a = None \<Longrightarrow> chain_nodes a = []"
  by (cases a) simp

lemma persona_set_persona [simp]: "persona (set_persona a p) = p"
  by (simp add: set_persona_def)

lemma persona_set_chain [simp]: "persona (set_chain a c) = persona a"
  by (simp add: set_chain_def)

lemma chain_node_set_persona [simp]: "chain_node (set_persona a p) = chain_node a"
  by (simp add: set_persona_def)

text \<open>The persona of the head and the origin of the chain, read off the definition.\<close>

lemma parse_head:
  assumes "parse command = Inr ast"
  shows "persona ast = fst (unwrap_persona command)"
  using assms
  by (subst (asm) parse.simps)
     (auto simp: Let_def split: if_splits sum.splits)

lemma parse_chain:
  assumes "parse command = Inr ast"
  shows "chain_nodes ast =
     (if 1 < length (split_chain (snd (unwrap_persona command)))
      then (case parse (join '' > '' (tl (split_chain (snd (unwrap_persona command))))) of
              Inr rest \<Rightarrow> rest # chain_nodes rest | Inl e \<Rightarrow> [])
      else [])"
  using assms
  by (subst (asm) parse.simps)
     (auto simp: Let_def chain_nodes_no_chain parse_single_fresh split: if_splits sum.splits)

text \<open>
  The texts the chained nodes are parsed from: the segments after the first, rejoined
  with the chain operator, then the same of that text, and so on.
\<close>

function chain_sources :: "string \<Rightarrow> string list" where
  "chain_sources command =
     (let chain_parts = split_chain (snd (unwrap_persona command))
      in if length chain_parts > 1
         then join '' > '' (tl chain_parts) # chain_sources (join '' > '' (tl chain_parts))
         else [])"
  by pat_completeness auto
termination
proof (relation "measure gt_count", goal_cases)
  case 1
  show ?case by simp
next
  case (2 command chain_parts)
  have "gt_count (join '' > '' (tl chain_parts)) < gt_count (snd (unwrap_persona command))"
    using 2 rejoin_smaller [of "snd (unwrap_persona command)"] by simp
  also have "\<dots> \<le> gt_count command"
    by (rule gt_count_unwrap_persona)
  finally show ?case by simp
qed

declare chain_sources.simps [simp del]

lemma parse_rest:
  assumes "parse command = Inr ast"
    and "1 < length (split_chain (snd (unwrap_persona command)))"
  shows "\<exists>a rest. parse_single (hd (split_chain (snd (unwrap_persona command)))) = Inr a
     \<and> parse (join '' > '' (tl (split_chain (snd (unwrap_persona command))))) = Inr rest"
  using assms
  by (subst (asm) parse.simps) (auto simp: Let_def split: sum.splits)

lemma parse_personas:
  "parse command = Inr ast \<Longrightarrow>
   map persona (ast # chain_nodes ast)
     = map (\<lambda>s. fst (unwrap_persona s)) (command # chain_sources command)"
proof (induction command arbitrary: ast rule: parse.induct)
  case (1 command)
  let ?parts = "split_chain (snd (unwrap_persona command))"
  let ?rest = "join '' > '' (tl ?parts)"
  have head: "persona ast = fst (unwrap_persona command)"
    using "1.prems" by (rule parse_head)
  show ?case
  proof (cases "1 < length ?parts")
    case False
    then have "chain_nodes ast = []"
      using parse_chain [OF "1.prems"] by simp
    moreover have "chain_sources command = []"
      using False by (subst chain_sources.simps) (simp add: Let_def)
    ultimately show ?thesis using head by simp
  next
    case True
    from parse_rest [OF "1.prems" True] obtain a rest
      where a: "parse_single (hd ?parts) = Inr a" and rest: "parse ?rest = Inr rest"
      by blast
    have nodes: "chain_nodes ast = rest # chain_nodes rest"
      using parse_chain [OF "1.prems"] True rest by simp
    have sources: "chain_sources command = ?rest # chain_sources ?rest"
      using True by (subst chain_sources.simps) (simp add: Let_def)
    have "map persona (rest # chain_nodes rest)
        = map (\<lambda>s. fst (unwrap_persona s)) (?rest # chain_sources ?rest)"
      using "1.IH" [of "unwrap_persona command" ?parts a rest] True a rest by simp
    then show ?thesis using head nodes sources by simp
  qed
qed

lemma unwrap_persona_None: "fst (unwrap_persona s) = None \<longleftrightarrow> persona_match (strip s) = None"
  by (simp add: unwrap_persona_def split: option.split prod.split)

subsection \<open>The scanner against the positions of the command\<close>

text \<open>
  The positions of a command, described without the scanner: a quote character toggles
  when it is the first character or does not follow a backslash; a position is inside
  quotes when an odd number of toggling quotes precede it; the bracket depth of a position
  is the number of opening brackets minus the number of closing brackets that precede it
  outside quotes.
\<close>

definition quote_toggles :: "string \<Rightarrow> nat \<Rightarrow> bool" where
  "quote_toggles cmd j \<longleftrightarrow> cmd ! j = dquote \<and> (j = 0 \<or> cmd ! (j - 1) \<noteq> backslash)"

definition inside_quotes :: "string \<Rightarrow> nat \<Rightarrow> bool" where
  "inside_quotes cmd i \<longleftrightarrow> odd (length (filter (quote_toggles cmd) [0..<i]))"

definition bracket_depth :: "string \<Rightarrow> nat \<Rightarrow> int" where
  "bracket_depth cmd i =
     int (length (filter (\<lambda>j. cmd ! j \<in> set ''[{('' \<and> \<not> inside_quotes cmd j) [0..<i]))
     - int (length (filter (\<lambda>j. cmd ! j \<in> set '']})'' \<and> \<not> inside_quotes cmd j) [0..<i]))"

text \<open>
  \<open>cut\<close> splits a list at its flagged elements, which are left out; \<open>segments_at P cmd\<close>
  are the pieces of \<open>cmd\<close> between the positions that satisfy \<open>P\<close>.
\<close>

fun cut :: "('a \<times> bool) list \<Rightarrow> 'a list list" where
  "cut [] = [[]]"
| "cut ((c, b) # r) =
     (if b then [] # cut r
      else (case cut r of p # ps \<Rightarrow> (c # p) # ps | [] \<Rightarrow> [[c]]))"

definition segments_at :: "(nat \<Rightarrow> bool) \<Rightarrow> string \<Rightarrow> string list" where
  "segments_at P cmd = cut (map (\<lambda>i. (cmd ! i, P i)) [0..<length cmd])"

lemma cut_nonempty [simp]: "cut xs \<noteq> []"
  by (induction xs rule: cut.induct) (auto split: list.splits)

lemma cut_snoc:
  "cut (xs @ [(c, b)]) =
     (if b then cut xs @ [[]] else butlast (cut xs) @ [last (cut xs) @ [c]])"
proof (induction xs rule: cut.induct)
  case 1
  show ?case by simp
next
  case (2 d e r)
  obtain p ps where r: "cut r = p # ps"
    by (cases "cut r") simp_all
  obtain q qs where rs: "cut (r @ [(c, b)]) = q # qs"
    by (cases "cut (r @ [(c, b)])") simp_all
  show ?case
  proof (cases b)
    case True
    then show ?thesis using 2 r by (auto split: list.splits)
  next
    case False
    then show ?thesis using 2 r by (cases ps) (auto split: list.splits)
  qed
qed

lemma map_butlast_last: "xs \<noteq> [] \<Longrightarrow> map f (butlast xs) @ [f (last xs)] = map f xs"
  by (induction xs) auto

lemma inside_quotes_Suc:
  "inside_quotes cmd (Suc n) = (if quote_toggles cmd n then \<not> inside_quotes cmd n else inside_quotes cmd n)"
  by (simp add: inside_quotes_def)

lemma bracket_depth_Suc:
  "bracket_depth cmd (Suc n) =
     bracket_depth cmd n
     + (if cmd ! n \<in> set ''[{('' \<and> \<not> inside_quotes cmd n then 1 else 0)
     - (if cmd ! n \<in> set '']})'' \<and> \<not> inside_quotes cmd n then 1 else 0)"
  by (simp add: bracket_depth_def)

definition split_here :: "string \<Rightarrow> nat \<Rightarrow> bool" where
  "split_here cmd i \<longleftrightarrow> cmd ! i = CHR ''>'' \<and> bracket_depth cmd i = 0 \<and> \<not> inside_quotes cmd i"

definition raw_upto :: "string \<Rightarrow> nat \<Rightarrow> string list" where
  "raw_upto cmd n = cut (map (\<lambda>i. (cmd ! i, split_here cmd i)) [0..<n])"

lemma raw_upto_Suc:
  "raw_upto cmd (Suc n) =
     (if split_here cmd n then raw_upto cmd n @ [[]]
      else butlast (raw_upto cmd n) @ [last (raw_upto cmd n) @ [cmd ! n]])"
  by (simp add: raw_upto_def cut_snoc)

lemma raw_upto_nonempty [simp]: "raw_upto cmd n \<noteq> []"
  by (simp add: raw_upto_def)

definition scan_agrees :: "string \<Rightarrow> nat \<Rightarrow> scan_state \<Rightarrow> bool" where
  "scan_agrees cmd n st \<longleftrightarrow>
     in_quotes st = inside_quotes cmd n \<and> depth st = bracket_depth cmd n
     \<and> parts st = map strip (butlast (raw_upto cmd n)) \<and> current st = last (raw_upto cmd n)"

lemma scan_agrees_step:
  assumes "scan_agrees cmd n st"
  shows "scan_agrees cmd (Suc n) (split_step cmd n st)"
proof -
  from assms have iq: "in_quotes st = inside_quotes cmd n"
    and d: "depth st = bracket_depth cmd n"
    and p: "parts st = map strip (butlast (raw_upto cmd n))"
    and c: "current st = last (raw_upto cmd n)"
    by (simp_all add: scan_agrees_def)
  consider (is_quote) "quote_toggles cmd n"
    | (is_open) "\<not> quote_toggles cmd n" "cmd ! n \<in> set ''[{(''" "\<not> in_quotes st"
    | (is_close) "\<not> quote_toggles cmd n" "\<not> (cmd ! n \<in> set ''[{('' \<and> \<not> in_quotes st)"
        "cmd ! n \<in> set '']})''" "\<not> in_quotes st"
    | (is_split) "\<not> quote_toggles cmd n" "\<not> (cmd ! n \<in> set ''[{('' \<and> \<not> in_quotes st)"
        "\<not> (cmd ! n \<in> set '']})'' \<and> \<not> in_quotes st)"
        "cmd ! n = CHR ''>''" "depth st = 0" "\<not> in_quotes st"
    | (is_other) "\<not> quote_toggles cmd n" "\<not> (cmd ! n \<in> set ''[{('' \<and> \<not> in_quotes st)"
        "\<not> (cmd ! n \<in> set '']})'' \<and> \<not> in_quotes st)"
        "\<not> (cmd ! n = CHR ''>'' \<and> depth st = 0 \<and> \<not> in_quotes st)"
    by blast
  then show ?thesis
  proof cases
    case is_quote
    then have ns: "\<not> split_here cmd n"
      by (simp add: split_here_def quote_toggles_def dquote_def)
    have nb: "cmd ! n \<notin> set ''[{(''" "cmd ! n \<notin> set '']})''"
      using is_quote by (simp_all add: quote_toggles_def dquote_def)
    have "split_step cmd n st = st\<lparr>in_quotes := \<not> in_quotes st, current := current st @ [cmd ! n]\<rparr>"
      using is_quote by (simp add: split_step_def quote_toggles_def Let_def)
    then show ?thesis
      using is_quote ns nb iq d p c
      by (simp add: scan_agrees_def inside_quotes_Suc bracket_depth_Suc raw_upto_Suc)
  next
    case is_open
    then have ns: "\<not> split_here cmd n"
      by (auto simp: split_here_def)
    have nc: "cmd ! n \<notin> set '']})''"
      using is_open by auto
    have "split_step cmd n st = st\<lparr>depth := depth st + 1, current := current st @ [cmd ! n]\<rparr>"
      using is_open by (simp add: split_step_def quote_toggles_def Let_def)
    then show ?thesis
      using is_open ns nc iq d p c
      by (simp add: scan_agrees_def inside_quotes_Suc bracket_depth_Suc raw_upto_Suc)
  next
    case is_close
    then have ns: "\<not> split_here cmd n"
      by (auto simp: split_here_def)
    have no: "cmd ! n \<notin> set ''[{(''"
      using is_close by auto
    have "split_step cmd n st = st\<lparr>depth := depth st - 1, current := current st @ [cmd ! n]\<rparr>"
      using is_close by (simp add: split_step_def quote_toggles_def Let_def)
    then show ?thesis
      using is_close ns no iq d p c
      by (simp add: scan_agrees_def inside_quotes_Suc bracket_depth_Suc raw_upto_Suc)
  next
    case is_split
    then have s: "split_here cmd n"
      using iq d by (simp add: split_here_def)
    have nb: "cmd ! n \<notin> set ''[{(''" "cmd ! n \<notin> set '']})''"
      using is_split by simp_all
    have "split_step cmd n st = st\<lparr>parts := parts st @ [strip (current st)], current := []\<rparr>"
      using is_split by (simp add: split_step_def quote_toggles_def Let_def)
    moreover have "map strip (butlast (raw_upto cmd n)) @ [strip (last (raw_upto cmd n))]
        = map strip (raw_upto cmd n)"
      by (rule map_butlast_last) simp
    ultimately show ?thesis
      using is_split s nb iq d p c
      by (simp add: scan_agrees_def inside_quotes_Suc bracket_depth_Suc raw_upto_Suc)
  next
    case is_other
    then have ns: "\<not> split_here cmd n"
      using iq d by (auto simp: split_here_def)
    have nb: "\<not> (cmd ! n \<in> set ''[{('' \<and> \<not> inside_quotes cmd n)"
       "\<not> (cmd ! n \<in> set '']})'' \<and> \<not> inside_quotes cmd n)"
      using is_other iq by simp_all
    have "split_step cmd n st = st\<lparr>current := current st @ [cmd ! n]\<rparr>"
      using is_other by (simp add: split_step_def quote_toggles_def Let_def)
    then show ?thesis
      using is_other ns nb iq d p c
      by (simp add: scan_agrees_def inside_quotes_Suc bracket_depth_Suc raw_upto_Suc)
  qed
qed

lemma scan_agrees_run:
  "scan_agrees cmd n (foldl (\<lambda>s j. split_step cmd j s)
      \<lparr>parts = [], current = [], depth = 0, in_quotes = False\<rparr> [0..<n])"
proof (induction n)
  case 0
  show ?case
    by (simp add: scan_agrees_def inside_quotes_def bracket_depth_def raw_upto_def)
next
  case (Suc n)
  then show ?case by (simp add: scan_agrees_step)
qed

subsection \<open>\<open>_parse_single\<close> returns or raises\<close>

lemma parse_single_ok:
  assumes "takeWhile is_word seg \<noteq> []"
  shows "\<exists>ast. parse_single seg = Inr ast \<and> action ast = takeWhile is_word seg"
  using assms by (simp add: parse_single_def Let_def split: prod.split)

lemma parse_single_fails:
  assumes "takeWhile is_word seg = []"
  shows "parse_single seg = Inl (ParseError (''Could not find action in: '' @ seg))"
  using assms by (simp add: parse_single_def)

section \<open>Properties of the output contracts\<close>

subsection \<open>The loop over the schema\<close>

lemma dict_set_fresh: "k \<notin> fst ` set d \<Longrightarrow> dict_set d k v = d @ [(k, v)]"
  by (induction d) auto

lemma map_of_dict_set: "map_of (dict_set d k v) k' = (if k' = k then Some v else map_of d k')"
  by (induction d) auto

lemma parse_fields_append:
  "parse_fields repr (xs @ ys) data r =
     (case parse_fields repr xs data r of
        Inl e \<Rightarrow> Inl e
      | Inr r' \<Rightarrow> parse_fields repr ys data r')"
proof (induction xs arbitrary: r)
  case Nil
  show ?case by simp
next
  case (Cons x xs)
  obtain name tc where x: "x = (name, tc)" by (cases x)
  show ?case
    by (simp add: x Cons.IH split: option.split sum.split)
qed

lemma parse_fields_keys:
  assumes "parse_fields repr schema data r = Inr res"
    and "distinct (map fst r @ map fst schema)"
  shows "map fst res = map fst r @ map fst schema"
  using assms
proof (induction schema arbitrary: r)
  case Nil
  then show ?case by simp
next
  case (Cons x schema)
  obtain name tc where x: "x = (name, tc)" by (cases x)
  have fresh: "name \<notin> fst ` set r"
    using Cons.prems(2) by (auto simp: x)
  have step: "\<And>v. parse_fields repr schema data (dict_set r name v) = Inr res
      \<Longrightarrow> map fst res = map fst r @ name # map fst schema"
  proof -
    fix v
    assume a: "parse_fields repr schema data (dict_set r name v) = Inr res"
    have "distinct (map fst (dict_set r name v) @ map fst schema)"
      using Cons.prems(2) fresh by (auto simp: x dict_set_fresh)
    from Cons.IH [OF a this] show "map fst res = map fst r @ name # map fst schema"
      using fresh by (simp add: dict_set_fresh)
  qed
  show ?case
    using Cons.prems(1) step
    by (auto simp: x split: option.splits sum.splits if_splits)
qed

lemma parse_fields_other_key:
  assumes "parse_fields repr schema data r = Inr res" and "k \<notin> fst ` set schema"
  shows "map_of res k = map_of r k"
  using assms
proof (induction schema arbitrary: r)
  case Nil
  then show ?case by simp
next
  case (Cons x schema)
  obtain name tc where x: "x = (name, tc)" by (cases x)
  have ne: "k \<noteq> name" and rest: "k \<notin> fst ` set schema"
    using Cons.prems(2) by (auto simp: x)
  have step: "\<And>v. parse_fields repr schema data (dict_set r name v) = Inr res
      \<Longrightarrow> map_of res k = map_of r k"
    using Cons.IH [OF _ rest] ne by (simp add: map_of_dict_set)
  show ?case
    using Cons.prems(1) step
    by (auto simp: x split: option.splits sum.splits if_splits)
qed

lemma parse_fields_same_lookups:
  assumes "\<And>name. name \<in> fst ` set schema \<Longrightarrow> map_of data' name = map_of data name"
  shows "parse_fields repr schema data' r = parse_fields repr schema data r"
  using assms
proof (induction schema arbitrary: r)
  case Nil
  show ?case by simp
next
  case (Cons x schema)
  obtain name tc where x: "x = (name, tc)" by (cases x)
  have here: "map_of data' name = map_of data name"
    using Cons.prems by (simp add: x)
  have rest: "\<And>r. parse_fields repr schema data' r = parse_fields repr schema data r"
    using Cons.IH Cons.prems by simp
  show ?case
    by (simp add: x here rest split: option.split sum.split)
qed

lemma map_of_filter_keys:
  "k \<in> S \<Longrightarrow> map_of (filter (\<lambda>kv. fst kv \<in> S) d) k = map_of d k"
  by (induction d) auto

lemma parse_fields_missing:
  assumes ok: "parse_fields repr schema data [] = Inr res"
    and dist: "distinct (map fst schema)"
    and mem: "(name, tc) \<in> set schema"
    and missing: "map_of data name = None"
  shows "tc_class tc = COptional \<and> map_of res name = Some VNone"
proof -
  obtain before after where split: "schema = before @ (name, tc) # after"
    using mem by (auto dest: split_list)
  obtain r1 where r1: "parse_fields repr before data [] = Inr r1"
    using ok unfolding split parse_fields_append by (auto split: sum.splits)
  have here: "parse_fields repr ((name, tc) # after) data r1 = Inr res"
    using ok r1 unfolding split parse_fields_append by simp
  then have opt: "tc_class tc = COptional"
    using missing by (auto split: if_splits)
  have after: "parse_fields repr after data (dict_set r1 name VNone) = Inr res"
    using here missing opt by simp
  have "name \<notin> fst ` set after"
    using dist unfolding split by auto
  then have "map_of res name = map_of (dict_set r1 name VNone) name"
    using after by (rule parse_fields_other_key [rotated])
  then show ?thesis using opt by (simp add: map_of_dict_set)
qed

section \<open>The claims\<close>

text \<open>
  C1. Let the decoder return an object. \<open>parse_response\<close> goes through the schema in its
  order: if a field is absent from the object and the fields before it have been processed
  to \<open>res\<close>, then a constraint that is not an \<open>Optional_\<close> ends the call with
  \<open>ContractError("Missing required field: <name>")\<close>, and an \<open>Optional_\<close> adds the field
  with the value \<open>None\<close> and the remaining fields are processed; an error of an earlier
  field is the error of the call. A returned dictionary has exactly the schema's keys, in
  the schema's order, with \<open>None\<close> for every absent field. Keys of the object that are
  not in the schema are ignored: deleting them from the object changes nothing.
\<close>

theorem parse_response_fields:
  assumes decoded: "json_loads (extract_json response) = Inr (VDict data)"
    and dist: "distinct (map fst schema)"
  shows
    "(\<forall>before name tc after res.
        schema = before @ (name, tc) # after \<and> map_of data name = None
        \<and> parse_fields repr before data [] = Inr res \<longrightarrow>
          parse_response json_loads repr schema response =
            (if tc_class tc = COptional
             then parse_fields repr after data (res @ [(name, VNone)])
             else Inl (ContractError (''Missing required field: '' @ name))))
     \<and> (\<forall>before after e.
          schema = before @ after \<and> parse_fields repr before data [] = Inl e \<longrightarrow>
            parse_response json_loads repr schema response = Inl e)
     \<and> (\<forall>result.
          parse_response json_loads repr schema response = Inr result \<longrightarrow>
            map fst result = map fst schema
            \<and> (\<forall>name tc. (name, tc) \<in> set schema \<and> map_of data name = None \<longrightarrow>
                  tc_class tc = COptional \<and> map_of result name = Some VNone))
     \<and> parse_response json_loads repr schema response =
          parse_fields repr schema (filter (\<lambda>kv. fst kv \<in> fst ` set schema) data) []"
proof -
  have pr: "parse_response json_loads repr schema response = parse_fields repr schema data []"
    by (simp add: parse_response_def decoded)
  have missing: "parse_fields repr schema data [] =
        (if tc_class tc = COptional
         then parse_fields repr after data (res @ [(name, VNone)])
         else Inl (ContractError (''Missing required field: '' @ name)))"
    if "schema = before @ (name, tc) # after" "map_of data name = None"
      "parse_fields repr before data [] = Inr res"
    for before name tc after res
  proof -
    have "map fst res = map fst before"
      using parse_fields_keys [OF that(3)] dist that(1) by simp
    moreover have "name \<notin> set (map fst before)"
      using dist that(1) by auto
    ultimately have "name \<notin> set (map fst res)"
      by simp
    then have "name \<notin> fst ` set res"
      by simp
    then have "dict_set res name VNone = res @ [(name, VNone)]"
      by (rule dict_set_fresh)
    then show ?thesis
      using that by (simp add: parse_fields_append)
  qed
  have earlier: "parse_fields repr schema data [] = Inl e"
    if "schema = before @ after" "parse_fields repr before data [] = Inl e" for before after e
    using that by (simp add: parse_fields_append)
  have keys: "map fst result = map fst schema"
    if "parse_fields repr schema data [] = Inr result" for result
    using parse_fields_keys [OF that] dist by simp
  have nulls: "tc_class tc = COptional \<and> map_of result name = Some VNone"
    if "parse_fields repr schema data [] = Inr result" "(name, tc) \<in> set schema"
      "map_of data name = None" for result name tc
    using parse_fields_missing [OF that(1) dist that(2) that(3)] .
  have extra: "parse_fields repr schema (filter (\<lambda>kv. fst kv \<in> fst ` set schema) data) []
      = parse_fields repr schema data []"
    by (rule parse_fields_same_lookups) (rule map_of_filter_keys)
  show ?thesis
    unfolding pr extra
  proof (intro conjI allI impI)
    fix before name tc after res
    assume "schema = before @ (name, tc) # after \<and> map_of data name = None
        \<and> parse_fields repr before data [] = Inr res"
    then show "parse_fields repr schema data [] =
        (if tc_class tc = COptional
         then parse_fields repr after data (res @ [(name, VNone)])
         else Inl (ContractError (''Missing required field: '' @ name)))"
      using missing by blast
  next
    fix before after e
    assume "schema = before @ after \<and> parse_fields repr before data [] = Inl e"
    then show "parse_fields repr schema data [] = Inl e"
      using earlier by blast
  next
    fix result
    assume "parse_fields repr schema data [] = Inr result"
    then show "map fst result = map fst schema"
      by (rule keys)
  next
    fix result name tc
    assume "parse_fields repr schema data [] = Inr result"
      and "(name, tc) \<in> set schema \<and> map_of data name = None"
    then show "tc_class tc = COptional" and "map_of result name = Some VNone"
      using nulls by blast+
  next
    show "parse_fields repr schema data [] = parse_fields repr schema data []"
      by (rule refl)
  qed
qed

theorem parse_response_fields_witness:
  "parse_response (\<lambda>s. Inr (VDict [(''required'', VStr ''yes''), (''extra'', VInt 3)])) (\<lambda>v. [])
     [(''required'', Str_object (\<lambda>p s. Inr True) (\<lambda>v. [])
          \<lparr>str_max = None, str_min = None, str_pattern = None\<rparr>),
      (''optional'', Optional_object (Int_object \<lparr>int_min = None, int_max = None\<rparr>)),
      (''needed'', Int_object \<lparr>int_min = None, int_max = None\<rparr>)] ''{}''
     = Inl (ContractError ''Missing required field: needed'')
   \<and> parse_response (\<lambda>s. Inr (VDict [(''required'', VStr ''yes''), (''extra'', VInt 3)])) (\<lambda>v. [])
     [(''required'', Str_object (\<lambda>p s. Inr True) (\<lambda>v. [])
          \<lparr>str_max = None, str_min = None, str_pattern = None\<rparr>),
      (''optional'', Optional_object (Int_object \<lparr>int_min = None, int_max = None\<rparr>))] ''{}''
     = Inr [(''required'', VStr ''yes''), (''optional'', VNone)]"
proof -
  let ?loads = "\<lambda>s::string. (Inr (VDict [(''required'', VStr ''yes''), (''extra'', VInt 3)]) :: string + value)"
  let ?data = "[(''required'', VStr ''yes''), (''extra'', VInt 3)]"
  let ?str = "Str_object (\<lambda>p s. Inr True) (\<lambda>v. []) \<lparr>str_max = None, str_min = None, str_pattern = None\<rparr>"
  let ?opt = "Optional_object (Int_object \<lparr>int_min = None, int_max = None\<rparr>)"
  let ?int = "Int_object \<lparr>int_min = None, int_max = None\<rparr>"
  let ?before = "[(''required'', ?str)]"
  have before: "parse_fields (\<lambda>v. []) ?before ?data [] = Inr [(''required'', VStr ''yes'')]"
    by (simp add: Str_object_def Str_validate_def Str_parse_def py_str_def)
  have before2: "parse_fields (\<lambda>v. []) (?before @ [(''optional'', ?opt)]) ?data []
      = Inr [(''required'', VStr ''yes''), (''optional'', VNone)]"
    by (simp add: Str_object_def Str_validate_def Str_parse_def py_str_def Optional_object_def)
  have c1: "tc_class ?int \<noteq> COptional" by (simp add: Int_object_def)
  have c2: "tc_class ?opt = COptional" by (simp add: Optional_object_def)
  have dist1: "distinct (map fst [(''required'', ?str), (''optional'', ?opt), (''needed'', ?int)])"
    by simp
  have dist2: "distinct (map fst [(''required'', ?str), (''optional'', ?opt)])"
    by simp
  have m1: "map_of ?data ''needed'' = None" by simp
  have m2: "map_of ?data ''optional'' = None" by simp
  note T1 = parse_response_fields [where json_loads = ?loads and response = "''{}''"
      and data = ?data and repr = "\<lambda>v. []"
      and schema = "[(''required'', ?str), (''optional'', ?opt), (''needed'', ?int)]",
      OF refl dist1]
  note T2 = parse_response_fields [where json_loads = ?loads and response = "''{}''"
      and data = ?data and repr = "\<lambda>v. []"
      and schema = "[(''required'', ?str), (''optional'', ?opt)]",
      OF refl dist2]
  have "parse_response ?loads (\<lambda>v. [])
      [(''required'', ?str), (''optional'', ?opt), (''needed'', ?int)] ''{}''
      = Inl (ContractError ''Missing required field: needed'')"
    using T1 [THEN conjunct1, rule_format, of "?before @ [(''optional'', ?opt)]" "''needed''"
        ?int "[]" "[(''required'', VStr ''yes''), (''optional'', VNone)]"] before2 c1 m1
    by simp
  moreover have "parse_response ?loads (\<lambda>v. []) [(''required'', ?str), (''optional'', ?opt)] ''{}''
      = Inr [(''required'', VStr ''yes''), (''optional'', VNone)]"
    using T2 [THEN conjunct1, rule_format, of ?before "''optional''" ?opt "[]"
        "[(''required'', VStr ''yes'')]"] before c2 m2
    by simp
  ultimately show ?thesis by simp
qed

text \<open>
  C2. \<open>_split_chain\<close> splits exactly at the \<open>>\<close> characters that stand at bracket depth
  zero outside quotes: its result is the list of the pieces between those positions, each
  trimmed, the last one left out when it is blank. A \<open>>\<close> inside a quoted literal or at a
  nonzero depth is therefore never a split point and stays in its segment; the command
  \<open>analyze "a > b" > fix\<close> yields the two segments \<open>analyze "a > b"\<close> and \<open>fix\<close>.
\<close>

theorem split_chain_respects_quotes_and_brackets:
  "split_chain cmd =
     (let raw = segments_at
            (\<lambda>i. cmd ! i = CHR ''>'' \<and> bracket_depth cmd i = 0 \<and> \<not> inside_quotes cmd i) cmd
      in map strip (butlast raw) @ (if strip (last raw) = [] then [] else [strip (last raw)]))
   \<and> split_chain ''analyze \"a > b\" > fix'' = [''analyze \"a > b\"'', ''fix'']"
proof
  have "segments_at
          (\<lambda>i. cmd ! i = CHR ''>'' \<and> bracket_depth cmd i = 0 \<and> \<not> inside_quotes cmd i) cmd
      = raw_upto cmd (length cmd)"
    by (simp add: segments_at_def raw_upto_def split_here_def)
  then show "split_chain cmd =
     (let raw = segments_at
            (\<lambda>i. cmd ! i = CHR ''>'' \<and> bracket_depth cmd i = 0 \<and> \<not> inside_quotes cmd i) cmd
      in map strip (butlast raw) @ (if strip (last raw) = [] then [] else [strip (last raw)]))"
    using scan_agrees_run [of cmd "length cmd"]
    by (simp add: split_chain_def split_loop_foldl scan_agrees_def Let_def)
next
  show "split_chain ''analyze \"a > b\" > fix'' = [''analyze \"a > b\"'', ''fix'']"
    by code_simp
qed

text \<open>
  C3 (as stated, false). The chain of a node is produced by a recursive call of \<open>parse\<close>
  on the remaining segments, and that call recognises a persona wrapper like any other:
  in \<open>a > @as "x" {b}\<close> the chained node carries the persona \<open>x\<close>.
\<close>

theorem parse_chained_persona_counterexample:
  "map_sum id (\<lambda>ast. map persona (chain_nodes ast)) (parse ''a > @as \"x\" {b}'')
     = Inr [Some ''x'']"
  by code_simp

text \<open>
  C3 (amended). For every command accepted by \<open>parse\<close>, each node of the returned chain,
  the head included, carries the persona of the wrapper of the text it was parsed from, and
  none if that text is not a persona wrapper: the head is parsed from the command, each
  chained node from the segments after the first of the text before it (of its body, when
  that text is a wrapper), rejoined with the chain operator. So every node reachable
  through the chain field has no persona exactly when none of these rejoined texts is a
  persona wrapper.
\<close>

theorem parse_persona:
  assumes "parse command = Inr ast"
  shows "map persona (ast # chain_nodes ast)
       = map (\<lambda>s. fst (unwrap_persona s)) (command # chain_sources command)
     \<and> ((\<forall>n \<in> set (chain_nodes ast). persona n = None)
          \<longleftrightarrow> (\<forall>s \<in> set (chain_sources command). persona_match (strip s) = None))"
proof
  show eq: "map persona (ast # chain_nodes ast)
       = map (\<lambda>s. fst (unwrap_persona s)) (command # chain_sources command)"
    using assms by (rule parse_personas)
  then have "map persona (chain_nodes ast)
       = map (\<lambda>s. fst (unwrap_persona s)) (chain_sources command)"
    by simp
  then have "set (map persona (chain_nodes ast))
       = set (map (\<lambda>s. fst (unwrap_persona s)) (chain_sources command))"
    by simp
  then have "persona ` set (chain_nodes ast)
       = (\<lambda>s. fst (unwrap_persona s)) ` set (chain_sources command)"
    by simp
  then have "(\<forall>n \<in> set (chain_nodes ast). persona n = None)
      \<longleftrightarrow> (\<forall>s \<in> set (chain_sources command). fst (unwrap_persona s) = None)"
    by (metis (no_types, lifting) image_iff)
  then show "(\<forall>n \<in> set (chain_nodes ast). persona n = None)
      \<longleftrightarrow> (\<forall>s \<in> set (chain_sources command). persona_match (strip s) = None)"
    by (simp add: unwrap_persona_None)
qed

theorem parse_persona_witness:
  "parse ''write > send \"a@b.c\"''
     = Inr (AILangAST ''write'' [] [] [] [] [] []
              (Some (AILangAST ''send'' ''a@b.c'' [] [] [] [] [] None [] None [])) [] None [])
   \<and> chain_sources ''write > send \"a@b.c\"'' = [''send \"a@b.c\"'']
   \<and> map persona (chain_nodes (AILangAST ''write'' [] [] [] [] [] []
              (Some (AILangAST ''send'' ''a@b.c'' [] [] [] [] [] None [] None [])) [] None []))
       = [None]
   \<and> parse ''@as \"x\" {a > @as \"y\" {b} > c}''
     = Inr (AILangAST ''a'' [] [] [] [] [] []
              (Some (AILangAST ''b'' [] [] [] [] [] [] None [] (Some ''y'') [])) [] (Some ''x'') [])
   \<and> chain_sources ''@as \"x\" {a > @as \"y\" {b} > c}'' = [''@as \"y\" {b} > c'']"
proof -
  have p1: "parse ''write > send \"a@b.c\"''
     = Inr (AILangAST ''write'' [] [] [] [] [] []
              (Some (AILangAST ''send'' ''a@b.c'' [] [] [] [] [] None [] None [])) [] None [])"
    by code_simp
  have s1: "chain_sources ''write > send \"a@b.c\"'' = [''send \"a@b.c\"'']"
    by code_simp
  have u1: "fst (unwrap_persona ''send \"a@b.c\"'') = None"
    by code_simp
  have p2: "parse ''@as \"x\" {a > @as \"y\" {b} > c}''
     = Inr (AILangAST ''a'' [] [] [] [] [] []
              (Some (AILangAST ''b'' [] [] [] [] [] [] None [] (Some ''y'') [])) [] (Some ''x'') [])"
    by code_simp
  have s2: "chain_sources ''@as \"x\" {a > @as \"y\" {b} > c}'' = [''@as \"y\" {b} > c'']"
    by code_simp
  have "map persona (chain_nodes (AILangAST ''write'' [] [] [] [] [] []
              (Some (AILangAST ''send'' ''a@b.c'' [] [] [] [] [] None [] None [])) [] None []))
       = [None]"
    using parse_persona [OF p1, THEN conjunct1] s1 u1 by simp
  moreover note parse_persona [OF p2, THEN conjunct1]
  ultimately show ?thesis using p1 s1 p2 s2 by simp
qed

text \<open>
  C4 (the code differs from the claim). \<open>Float.validate\<close> only tests that the value
  coerces to a float: it never reads \<open>min\<close> or \<open>max\<close>, so its answer is the same for
  every constraint. With \<open>min = 0\<close> and \<open>max = 1\<close> it accepts the value \<open>5\<close>.
\<close>

theorem Float_validate_ignores_range:
  "Float_validate c value = Float_validate c' value
   \<and> Float_validate \<lparr>float_min = Some (Finite 0), float_max = Some (Finite 1),
         float_precision = None\<rparr> (VInt 5) = Inr True"
  by (simp add: Float_validate_def)

text \<open>
  C5 (the code differs from the claim). An empty segment between two chain operators is
  appended to the result, not dropped: only the text after the last operator is tested
  for emptiness. The command \<open>a > > b\<close> yields three segments, the middle one empty.
\<close>

theorem split_chain_keeps_empty_segment:
  "split_chain ''a > > b'' = [''a'', [], ''b'']"
  by code_simp

text \<open>
  C6. \<open>_parse_single\<close> raises \<open>ParseError\<close> exactly when the segment is empty or starts
  with a character that is not a word character, and it raises nothing else. Otherwise it
  returns a node whose action is the longest prefix of word characters: the prefix is not
  empty, consists of word characters only, and is followed by the end of the segment or by
  a character that is not a word character. No vocabulary is consulted: the action is a
  function of the leading characters alone.
\<close>

theorem parse_single_action:
  "(isl (parse_single seg) \<longleftrightarrow> seg = [] \<or> \<not> is_word (hd seg))
   \<and> (\<forall>e. parse_single seg = Inl e \<longrightarrow> (\<exists>msg. e = ParseError msg))
   \<and> (seg \<noteq> [] \<and> is_word (hd seg) \<longrightarrow>
        (\<exists>ast rest. parse_single seg = Inr ast
           \<and> action ast = takeWhile is_word seg
           \<and> seg = action ast @ rest
           \<and> action ast \<noteq> []
           \<and> (\<forall>c \<in> set (action ast). is_word c)
           \<and> (rest = [] \<or> \<not> is_word (hd rest))))"
proof (cases "takeWhile is_word seg = []")
  case True
  then have "seg = [] \<or> \<not> is_word (hd seg)"
    by (simp add: takeWhile_eq_Nil_iff)
  with parse_single_fails [OF True] show ?thesis by auto
next
  case False
  then have start: "seg \<noteq> [] \<and> is_word (hd seg)"
    by (simp add: takeWhile_eq_Nil_iff)
  from parse_single_ok [OF False] obtain ast
    where ast: "parse_single seg = Inr ast" "action ast = takeWhile is_word seg" by blast
  have "seg = action ast @ dropWhile is_word seg"
    by (simp add: ast)
  moreover have "\<forall>c \<in> set (action ast). is_word c"
    by (auto simp: ast dest: set_takeWhileD)
  moreover have "dropWhile is_word seg = [] \<or> \<not> is_word (hd (dropWhile is_word seg))"
    using hd_dropWhile [of is_word seg] by blast
  moreover have "action ast \<noteq> []"
    using False by (simp add: ast)
  ultimately have "\<exists>ast rest. parse_single seg = Inr ast
           \<and> action ast = takeWhile is_word seg
           \<and> seg = action ast @ rest
           \<and> action ast \<noteq> []
           \<and> (\<forall>c \<in> set (action ast). is_word c)
           \<and> (rest = [] \<or> \<not> is_word (hd rest))"
    using ast by blast
  moreover have "\<not> isl (parse_single seg)"
    by (simp add: ast)
  moreover have "\<forall>e. parse_single seg = Inl e \<longrightarrow> (\<exists>msg. e = ParseError msg)"
    by (simp add: ast)
  ultimately show ?thesis using start by blast
qed

theorem parse_single_action_witness:
  "isl (parse_single ''!short'') \<and> isl (parse_single [])
   \<and> map_sum id action (parse_single ''zzz9_q \"x\" !short'') = Inr ''zzz9_q''"
proof -
  have "\<not> is_word (hd ''!short'')" by code_simp
  moreover have "is_word (hd ''zzz9_q \"x\" !short'')" by code_simp
  moreover have "takeWhile is_word ''zzz9_q \"x\" !short'' = ''zzz9_q''" by code_simp
  ultimately show ?thesis
    using parse_single_action [of "''!short''"] parse_single_action [of "[]"]
      parse_single_action [of "''zzz9_q \"x\" !short''"]
    by auto
qed

text \<open>
  C7. \<open>Optional_.parse\<close> maps \<open>None\<close>, the string \<open>null\<close> and the empty string to \<open>None\<close>
  and hands every other value to the inner type's \<open>parse\<close>. Over an unconstrained
  \<open>Str\<close>, every other string parses to itself.
\<close>

theorem Optional_parse_null:
  "tc_parse (Optional_object inner) VNone = Inr VNone
   \<and> tc_parse (Optional_object inner) (VStr ''null'') = Inr VNone
   \<and> tc_parse (Optional_object inner) (VStr []) = Inr VNone
   \<and> (v \<noteq> VNone \<and> v \<noteq> VStr ''null'' \<and> v \<noteq> VStr []
        \<longrightarrow> tc_parse (Optional_object inner) v = tc_parse inner v)
   \<and> (s \<noteq> ''null'' \<and> s \<noteq> []
        \<longrightarrow> tc_parse (Optional_object
              (Str_object re_match repr \<lparr>str_max = None, str_min = None, str_pattern = None\<rparr>))
              (VStr s) = Inr (VStr s))"
  by (simp add: Optional_object_def Optional_parse_def Str_object_def Str_parse_def py_str_def)

theorem Optional_parse_null_witness:
  "tc_parse (Optional_object (Int_object \<lparr>int_min = None, int_max = None\<rparr>)) (VStr ''42'')
     = Inr (VInt 42)
   \<and> tc_parse (Optional_object
         (Str_object (\<lambda>p s. Inr True) (\<lambda>v. [])
            \<lparr>str_max = None, str_min = None, str_pattern = None\<rparr>)) (VStr ''hello'')
     = Inr (VStr ''hello'')"
proof -
  have "tc_parse (Int_object \<lparr>int_min = None, int_max = None\<rparr>) (VStr ''42'') = Inr (VInt 42)"
    by code_simp
  then show ?thesis
    using Optional_parse_null [of "Int_object \<lparr>int_min = None, int_max = None\<rparr>" "VStr ''42''"
        "''hello''" "\<lambda>p s. Inr True" "\<lambda>v. []"]
    by simp
qed

text \<open>
  C8 (the code differs from the claim). The search for parallel outputs starts at the
  first \<open>&\<close>, so the identifier in front of it is not part of the match: for the segment
  \<open>write "post" title & summary & tags\<close> the parallel field is \<open>[summary, tags]\<close>, without
  \<open>title\<close>.
\<close>

theorem parse_single_parallel_drops_first:
  "map_sum id parallel (parse_single ''write \"post\" title & summary & tags'')
     = Inr [''summary'', ''tags'']"
  by code_simp

text \<open>
  C9. When \<open>max\<close> is set and at least 3, the string \<open>Str.parse\<close> returns is never longer
  than \<open>max\<close>, whatever the value: a string form longer than \<open>max\<close> is cut to its first
  \<open>max - 3\<close> characters followed by three dots, and a shorter one is returned as it is.
\<close>

theorem Str_parse_bounded:
  assumes "str_max c = Some m" and "3 \<le> m"
  shows "int (length (Str_parse repr c v)) \<le> m
     \<and> (m < int (length (py_str repr v))
          \<longrightarrow> Str_parse repr c v = take (nat (m - 3)) (py_str repr v) @ ''...'')
     \<and> (int (length (py_str repr v)) \<le> m \<longrightarrow> Str_parse repr c v = py_str repr v)"
  using assms by (auto simp: Str_parse_def slice_to_def Let_def)

theorem Str_parse_bounded_witness:
  "Str_parse (\<lambda>v. []) \<lparr>str_max = Some 10, str_min = None, str_pattern = None\<rparr>
      (VStr ''this is way too long'') = ''this is...''
   \<and> Str_parse (\<lambda>v. []) \<lparr>str_max = Some 10, str_min = None, str_pattern = None\<rparr>
      (VStr ''short'') = ''short''"
  using Str_parse_bounded [of "\<lparr>str_max = Some 10, str_min = None, str_pattern = None\<rparr>" 10
      "\<lambda>v. []" "VStr ''this is way too long''"]
    Str_parse_bounded [of "\<lparr>str_max = Some 10, str_min = None, str_pattern = None\<rparr>" 10
      "\<lambda>v. []" "VStr ''short''"]
  by (simp add: py_str_def)

text \<open>
  C10 (as stated, false). The bounds of \<open>Int\<close> are compared with \<open>None\<close>, not tested for
  truth, so a bound of \<open>0\<close> is enforced there: with \<open>min = 0\<close> the value \<open>-1\<close> is rejected
  and with \<open>max = 0\<close> the value \<open>1\<close>, while an unbounded \<open>Int\<close> accepts both.
\<close>

theorem Int_zero_bound_counterexample:
  "Int_validate \<lparr>int_min = Some 0, int_max = None\<rparr> (VInt (- 1)) = Inr False
   \<and> Int_validate \<lparr>int_min = None, int_max = None\<rparr> (VInt (- 1)) = Inr True
   \<and> Int_validate \<lparr>int_min = None, int_max = Some 0\<rparr> (VInt 1) = Inr False
   \<and> Int_validate \<lparr>int_min = None, int_max = None\<rparr> (VInt 1) = Inr True"
  by (simp add: Int_validate_def)

text \<open>
  C10 (amended). In \<open>List_\<close> and \<open>Str\<close> a bound of \<open>0\<close> is tested for truth and behaves as
  if it were unset: \<open>exact_items\<close>, \<open>min_items\<close> or \<open>max_items\<close> set to \<open>0\<close> give the same
  verdict as \<open>None\<close> on every value, and so do \<open>max\<close> and \<open>min\<close> of \<open>Str\<close>; a \<open>List_\<close> with
  all three counts \<open>0\<close> and no item type accepts lists of every length, a \<open>Str\<close> with both
  bounds \<open>0\<close> and no pattern accepts strings of every length, and \<open>Str.parse\<close> with
  \<open>max = 0\<close> never truncates. (The bounds of \<open>Int\<close> are enforced at \<open>0\<close> too.)
\<close>

theorem zero_bounds_unset:
  "List_validate (c\<lparr>exact_items := Some 0\<rparr>) v = List_validate (c\<lparr>exact_items := None\<rparr>) v
   \<and> List_validate (c\<lparr>min_items := Some 0\<rparr>) v = List_validate (c\<lparr>min_items := None\<rparr>) v
   \<and> List_validate (c\<lparr>max_items := Some 0\<rparr>) v = List_validate (c\<lparr>max_items := None\<rparr>) v
   \<and> List_validate \<lparr>item_type = None, min_items = Some 0, max_items = Some 0,
        exact_items = Some 0\<rparr> (VList xs) = Inr True
   \<and> Str_validate re_match (d\<lparr>str_max := Some 0\<rparr>) v = Str_validate re_match (d\<lparr>str_max := None\<rparr>) v
   \<and> Str_validate re_match (d\<lparr>str_min := Some 0\<rparr>) v = Str_validate re_match (d\<lparr>str_min := None\<rparr>) v
   \<and> Str_validate re_match \<lparr>str_max = Some 0, str_min = Some 0, str_pattern = None\<rparr> (VStr s)
       = Inr True
   \<and> Str_parse repr (d\<lparr>str_max := Some 0\<rparr>) v = py_str repr v"
  by (cases v) (simp_all add: List_validate_def Str_validate_def Str_parse_def)

end
